theory Spec2Isabelle
  imports Complex_Main
begin

section \<open>Strings\<close>

text \<open>
  A JavaScript string is a sequence of UTF-16 code units and \<open>length\<close> counts code
  units, so a string is modelled as a list of code units, each a natural number.
  \<open>js\<close> turns an ASCII literal into such a list.
\<close>

type_synonym jsstring = "nat list"

definition js :: "string \<Rightarrow> jsstring" where
  "js s = map of_char s"

text \<open>
  \<open>String.prototype.trim\<close> strips the code units of WhiteSpace and LineTerminator
  from both ends.
\<close>

definition isWhiteSpace :: "nat \<Rightarrow> bool" where
  "isWhiteSpace c \<longleftrightarrow>
     c = 9 \<or> c = 10 \<or> c = 11 \<or> c = 12 \<or> c = 13 \<or> c = 32 \<or> c = 160 \<or> c = 5760 \<or>
     (8192 \<le> c \<and> c \<le> 8202) \<or> c = 8232 \<or> c = 8233 \<or> c = 8239 \<or> c = 8287 \<or>
     c = 12288 \<or> c = 65279"

definition trim :: "jsstring \<Rightarrow> jsstring" where
  "trim s = rev (dropWhile isWhiteSpace (rev (dropWhile isWhiteSpace s)))"

text \<open>\<open>s.includes('@')\<close>; the code unit of \<open>@\<close> is 64.\<close>

definition includes_at :: "jsstring \<Rightarrow> bool" where
  "includes_at s \<longleftrightarrow> 64 \<in> set s"

text \<open>
  \<open>s.split(sep)\<close> for a one-unit separator: the pieces between the separators, in
  order; the result is never empty (\<open>''''.split(sep)\<close> is \<open>['''']\<close>).
\<close>

fun split :: "nat \<Rightarrow> jsstring \<Rightarrow> jsstring list" where
  "split sep [] = [[]]"
| "split sep (c # cs) =
     (if c = sep then [] # split sep cs
      else (case split sep cs of
              [] \<Rightarrow> [[c]]
            | p # ps \<Rightarrow> (c # p) # ps))"

text \<open>\<open>xs[i]\<close>, with \<open>None\<close> for \<open>undefined\<close> out of range.\<close>

definition at_index :: "'a list \<Rightarrow> nat \<Rightarrow> 'a option" where
  "at_index xs i = (if i < length xs then Some (xs ! i) else None)"

text \<open>\<open>n.toString()\<close> for a non-negative integer: its decimal digits.\<close>

fun toString :: "nat \<Rightarrow> jsstring" where
  "toString n = (if n < 10 then [48 + n] else toString (n div 10) @ [48 + n mod 10])"

declare toString.simps [simp del]

text \<open>\<open>Math.round\<close>: the nearest integer, halves rounded up.\<close>

definition Math_round :: "rat \<Rightarrow> int" where
  "Math_round x = \<lfloor>x + 1 / 2\<rfloor>"

section \<open>Recipient validity\<close>

text \<open>
  The test of \<open>sendBatch\<close> (on the trimmed target):
  \<^verbatim>\<open>if (!email.includes('@') || email.length < 5)\<close> classifies the target as invalid.
\<close>

definition invalid_email :: "jsstring \<Rightarrow> bool" where
  "invalid_email email \<longleftrightarrow> \<not> includes_at email \<or> length email < 5"

text \<open>
  The target list of the launch endpoint: an array is taken as it is; a string is
  split at newlines, each line trimmed, and the lines with \<open>@\<close> and a length above 5 kept.
\<close>

datatype targets_in = TString jsstring | TArray "jsstring list"

definition launch_keep :: "jsstring \<Rightarrow> bool" where
  "launch_keep t \<longleftrightarrow> includes_at t \<and> length t > 5"

definition targetList_of :: "targets_in \<Rightarrow> jsstring list" where
  "targetList_of targets =
     (case targets of
        TArray ts \<Rightarrow> ts
      | TString s \<Rightarrow> filter launch_keep (map trim (split 10 s)))"

section \<open>Placeholder substitution\<close>

text \<open>
  \<^verbatim>\<open>str.replace(/\{\{(\w+)\}\}/g, (match, key) => ...)\<close>: one scan from left to right.
  At each position the pattern matches when two opening braces are followed by a
  non-empty run of word characters (\<open>A-Z a-z 0-9 _\<close>) and two closing braces; the
  run is taken greedily and a shorter run cannot match, since it would be followed by
  a word character. A match is replaced by the callback's value and the scan goes on
  after the match; the value itself is not scanned. Elsewhere the code unit is copied.
\<close>

definition isWordChar :: "nat \<Rightarrow> bool" where
  "isWordChar c \<longleftrightarrow>
     (48 \<le> c \<and> c \<le> 57) \<or> (65 \<le> c \<and> c \<le> 90) \<or> c = 95 \<or> (97 \<le> c \<and> c \<le> 122)"

definition match_here :: "jsstring \<Rightarrow> (jsstring \<times> jsstring) option" where
  "match_here s =
     (case s of
        a # b # rest \<Rightarrow>
          if a = 123 \<and> b = 123 then
            (let key = takeWhile isWordChar rest in
             if key = [] then None
             else (case dropWhile isWordChar rest of
                     c # d # after \<Rightarrow> if c = 125 \<and> d = 125 then Some (key, after) else None
                   | _ \<Rightarrow> None))
          else None
      | _ \<Rightarrow> None)"

text \<open>The matched text of a placeholder with the given key.\<close>

definition placeholder :: "jsstring \<Rightarrow> jsstring" where
  "placeholder key = [123, 123] @ key @ [125, 125]"

function replace :: "(jsstring \<Rightarrow> jsstring \<Rightarrow> jsstring) \<Rightarrow> jsstring \<Rightarrow> jsstring" where
  "replace f [] = []"
| "replace f (c # cs) =
     (case match_here (c # cs) of
        Some (key, after) \<Rightarrow> f (placeholder key) key @ replace f after
      | None \<Rightarrow> c # replace f cs)"
  by pat_completeness auto
termination
proof (relation "measure (\<lambda>(f, s). length s)")
  fix f :: "jsstring \<Rightarrow> jsstring \<Rightarrow> jsstring" and c cs x2 key after
  assume "match_here (c # cs) = Some x2" and "(key, after) = x2"
  then have m: "match_here (c # cs) = Some (key, after)" by simp
  then obtain b rest where s: "cs = b # rest"
    by (cases cs) (auto simp: match_here_def)
  from m s obtain x y where d: "dropWhile isWordChar rest = x # y # after"
    by (auto simp: match_here_def Let_def split: if_splits list.splits)
  have "length (dropWhile isWordChar rest) \<le> length rest"
    by (rule length_dropWhile_le)
  with d s show "((f, after), (f, c # cs)) \<in> measure (\<lambda>(f, s). length s)" by simp
qed simp_all

text \<open>The keys of the matches that the scan finds, in order.\<close>

function placeholder_keys :: "jsstring \<Rightarrow> jsstring list" where
  "placeholder_keys [] = []"
| "placeholder_keys (c # cs) =
     (case match_here (c # cs) of
        Some (key, after) \<Rightarrow> key # placeholder_keys after
      | None \<Rightarrow> placeholder_keys cs)"
  by pat_completeness auto
termination
proof (relation "measure length")
  fix c cs x2 key after
  assume "match_here (c # cs) = Some x2" and "(key, after) = x2"
  then have m: "match_here (c # cs) = Some (key, after)" by simp
  then obtain b rest where s: "cs = b # rest"
    by (cases cs) (auto simp: match_here_def)
  from m s obtain x y where d: "dropWhile isWordChar rest = x # y # after"
    by (auto simp: match_here_def Let_def split: if_splits list.splits)
  have "length (dropWhile isWordChar rest) \<le> length rest"
    by (rule length_dropWhile_le)
  with d s show "(after, c # cs) \<in> measure length" by simp
qed simp_all

section \<open>Statistics, credentials, templates\<close>

text \<open>\<open>MAGIC_STATS\<close>. \<open>successRate\<close> is a double in the source; here it is exact.\<close>

record stats =
  sent :: nat
  rotations :: nat
  errors :: nat
  active :: bool
  speed :: int
  successRate :: rat
  currentCampaign :: "jsstring option"
  currentSMTP :: "jsstring option"

definition MAGIC_STATS_init :: stats where
  "MAGIC_STATS_init =
     \<lparr>sent = 0, rotations = 0, errors = 0, active = False, speed = 0, successRate = 100,
      currentCampaign = None, currentSMTP = None\<rparr>"

record smtp =
  user :: jsstring
  pass :: jsstring
  host :: jsstring
  port :: nat
  secure :: bool

text \<open>
  The template of a request. A field that is absent from the request body is \<open>None\<close>.
\<close>

record template =
  subject :: "jsstring option"
  html :: "jsstring option"
  sender :: "jsstring option"
  phishLink :: "jsstring option"

text \<open>\<open>x || d\<close> for a string that may be absent: absent and empty are both falsy.\<close>

definition or_else :: "jsstring option \<Rightarrow> jsstring \<Rightarrow> jsstring" where
  "or_else x d = (case x of None \<Rightarrow> d | Some v \<Rightarrow> if v = [] then d else v)"

definition falsy :: "jsstring option \<Rightarrow> bool" where
  "falsy x \<longleftrightarrow> (case x of None \<Rightarrow> True | Some v \<Rightarrow> v = [])"

section \<open>The environment\<close>

text \<open>
  What the program gets from outside is not determined by its inputs: whether a
  harvester delivers a credential that verifies, whether the relay accepts a message,
  the clock. The environment gives each of them as a function of a tick, and the
  tick advances at every such call, so that the same call may end differently later.
\<close>

record message =
  mail_from :: jsstring
  mail_to :: jsstring
  mail_subject :: jsstring
  mail_html :: jsstring
  x_campaign_id :: jsstring

record env =
  harvest_verify :: "nat \<Rightarrow> nat \<Rightarrow> smtp option"
  sendMail :: "nat \<Rightarrow> smtp \<Rightarrow> message \<Rightarrow> jsstring option"
  Date_now :: "nat \<Rightarrow> nat"
  toLocaleDateString :: "nat \<Rightarrow> jsstring"
  toLocaleTimeString :: "nat \<Rightarrow> jsstring"
  uuidv4 :: "nat \<Rightarrow> jsstring"

text \<open>
  \<open>harvest_verify e t i\<close>: the credential when harvester \<open>i\<close> delivers one at tick \<open>t\<close>
  and the test connection verifies it, \<open>None\<close> when either throws.
  \<open>sendMail e t s m\<close>: \<open>None\<close> when the message is accepted, the error's message otherwise.
\<close>

text \<open>
  The world: the statistics, the tick, and \<open>outbox\<close>, the messages handed to
  \<open>transporter.sendMail\<close> so far (not in the source; it records the dispatches).
\<close>

record world =
  MAGIC_STATS :: stats
  tick :: nat
  outbox :: "message list"

definition advance :: "world \<Rightarrow> world" where
  "advance w = w\<lparr>tick := Suc (tick w)\<rparr>"

definition upd_stats :: "(stats \<Rightarrow> stats) \<Rightarrow> world \<Rightarrow> world" where
  "upd_stats f w = w\<lparr>MAGIC_STATS := f (MAGIC_STATS w)\<rparr>"

section \<open>sendBatch\<close>

datatype status = Success | Failed | Invalid

record result =
  target :: jsstring
  status :: status
  error :: "jsstring option"

text \<open>
  The callback of the subject: \<open>target\<close>, \<open>domain\<close>, \<open>id\<close> and \<open>date\<close> are
  recognised; for any other key the match is returned. A callback that returns
  \<open>undefined\<close> (no second piece of the split) puts the text \<open>undefined\<close>.
\<close>

definition subject_callback :: "env \<Rightarrow> world \<Rightarrow> jsstring \<Rightarrow> jsstring \<Rightarrow> jsstring \<Rightarrow> jsstring" where
  "subject_callback e w email match key =
     (if key = js ''target'' then (case split 64 email of [] \<Rightarrow> [] | p # ps \<Rightarrow> p)
      else if key = js ''domain'' then
        (case at_index (split 64 email) 1 of None \<Rightarrow> js ''undefined'' | Some d \<Rightarrow> d)
      else if key = js ''id'' then toString (sent (MAGIC_STATS w) + 1)
      else if key = js ''date'' then toLocaleDateString e (tick w)
      else match)"

text \<open>
  The callback of the body: \<open>target\<close>, \<open>email\<close>, \<open>id\<close>, \<open>sender\<close>, \<open>phish\<close>,
  \<open>date\<close> and \<open>time\<close> are recognised.
\<close>

definition html_callback ::
  "env \<Rightarrow> world \<Rightarrow> smtp \<Rightarrow> template \<Rightarrow> jsstring \<Rightarrow> jsstring \<Rightarrow> jsstring \<Rightarrow> jsstring" where
  "html_callback e w s t email match key =
     (if key = js ''target'' then email
      else if key = js ''email'' then email
      else if key = js ''id'' then toString (sent (MAGIC_STATS w) + 1)
      else if key = js ''sender'' then user s
      else if key = js ''phish'' then or_else (phishLink t) (js ''#'')
      else if key = js ''date'' then toLocaleDateString e (tick w)
      else if key = js ''time'' then toLocaleTimeString e (tick w)
      else match)"

text \<open>The keys each callback recognises.\<close>

definition subject_names :: "jsstring list" where
  "subject_names = [js ''target'', js ''domain'', js ''id'', js ''date'']"

definition html_names :: "jsstring list" where
  "html_names =
     [js ''target'', js ''email'', js ''id'', js ''sender'', js ''phish'', js ''date'', js ''time'']"

definition render_subject :: "env \<Rightarrow> world \<Rightarrow> jsstring \<Rightarrow> jsstring \<Rightarrow> jsstring" where
  "render_subject e w email sub = replace (subject_callback e w email) sub"

definition render_html ::
  "env \<Rightarrow> world \<Rightarrow> smtp \<Rightarrow> template \<Rightarrow> jsstring \<Rightarrow> jsstring \<Rightarrow> jsstring" where
  "render_html e w s t email h = replace (html_callback e w s t email) h"

text \<open>
  The message built in the \<open>try\<close> for one valid recipient. Calling \<open>replace\<close> on an
  absent subject or body throws a TypeError (\<open>None\<close> here), caught like a failed send.
\<close>

definition undefined_replace :: jsstring where
  "undefined_replace = js ''Cannot read properties of undefined (reading replace)''"

definition compose :: "env \<Rightarrow> world \<Rightarrow> smtp \<Rightarrow> template \<Rightarrow> jsstring \<Rightarrow> message option" where
  "compose e w s t email =
     (case subject t of
        None \<Rightarrow> None
      | Some sub \<Rightarrow>
          (case html t of
             None \<Rightarrow> None
           | Some h \<Rightarrow>
               Some \<lparr>mail_from = [34] @ or_else (sender t) (js ''MagicPro'') @ [34, 32, 60]
                                   @ user s @ [62],
                     mail_to = email,
                     mail_subject = render_subject e w email sub,
                     mail_html = render_html e w s t email h,
                     x_campaign_id = or_else (currentCampaign (MAGIC_STATS w)) (js ''unknown'')\<rparr>))"

text \<open>
  The \<open>for\<close> loop over the targets, with \<open>results\<close> and \<open>sentInBatch\<close>: an invalid
  target is pushed and skipped (\<open>continue\<close>); a valid one is sent, and counted in
  \<open>sent\<close>, or in \<open>errors\<close> when the \<open>try\<close> throws.
\<close>

fun sendBatch_loop ::
  "env \<Rightarrow> smtp \<Rightarrow> template \<Rightarrow> jsstring list \<Rightarrow> world \<Rightarrow> result list \<Rightarrow> nat
   \<Rightarrow> world \<times> result list \<times> nat" where
  "sendBatch_loop e s t [] w results sentInBatch = (w, results, sentInBatch)"
| "sendBatch_loop e s t (tg # tgs) w results sentInBatch =
     (let email = trim tg in
      if invalid_email email then
        sendBatch_loop e s t tgs w
          (results @ [\<lparr>target = email, status = Invalid, error = Some (js ''Invalid email format'')\<rparr>])
          sentInBatch
      else
        (case compose e w s t email of
           None \<Rightarrow>
             sendBatch_loop e s t tgs
               (upd_stats (\<lambda>m. m\<lparr>errors := errors m + 1\<rparr>) w)
               (results @ [\<lparr>target = email, status = Failed, error = Some undefined_replace\<rparr>])
               sentInBatch
         | Some m \<Rightarrow>
             (let w' = advance (w\<lparr>outbox := outbox w @ [m]\<rparr>) in
              case sendMail e (tick w) s m of
                None \<Rightarrow>
                  sendBatch_loop e s t tgs
                    (upd_stats (\<lambda>m. m\<lparr>sent := sent m + 1\<rparr>) w')
                    (results @ [\<lparr>target = email, status = Success, error = None\<rparr>])
                    (sentInBatch + 1)
              | Some msg \<Rightarrow>
                  sendBatch_loop e s t tgs
                    (upd_stats (\<lambda>m. m\<lparr>errors := errors m + 1\<rparr>) w')
                    (results @ [\<lparr>target = email, status = Failed, error = Some msg\<rparr>])
                    sentInBatch)))"

definition sendBatch ::
  "env \<Rightarrow> smtp \<Rightarrow> jsstring list \<Rightarrow> template \<Rightarrow> world \<Rightarrow> result list \<times> world" where
  "sendBatch e s targets t w =
     (let startTime = Date_now e (tick w);
          (w1, results, sentInBatch) = sendBatch_loop e s t targets (advance w) [] 0;
          elapsedSeconds = (of_nat (Date_now e (tick w1)) - of_nat startTime) / (1000 :: rat);
          w2 = upd_stats (\<lambda>m. m\<lparr>speed :=
                 (if elapsedSeconds > 0 then Math_round (of_nat sentInBatch / elapsedSeconds)
                  else 0)\<rparr>) (advance w1);
          totalAttempts = sent (MAGIC_STATS w2) + errors (MAGIC_STATS w2);
          w3 = upd_stats (\<lambda>m. m\<lparr>successRate :=
                 (if totalAttempts > 0 then (of_nat (sent m) / of_nat totalAttempts) * 100
                  else 100)\<rparr>) w2
      in (results, w3))"

section \<open>harvestSMTP\<close>

record harvester =
  name :: jsstring
  enabled :: bool

definition SMTP_HARVESTERS :: "harvester list" where
  "SMTP_HARVESTERS =
     [\<lparr>name = js ''GuerrillaMail'', enabled = True\<rparr>, \<lparr>name = js ''TempMail'', enabled = True\<rparr>]"

text \<open>
  What the run can throw: the error of \<open>harvestSMTP\<close>, whose message is
  \<^verbatim>\<open>All SMTP harvesters failed after ${retries} attempts\<close>, and a TypeError.
\<close>

datatype js_error = AllHarvestersFailed nat | TypeError

text \<open>
  The \<open>for\<close> loop over the attempts. The last component lists the harvester index
  selected at each attempt, in order; it is not in the source and only records what
  line 166 computed. With no enabled harvester the index is \<open>NaN\<close>, the harvester is
  \<open>undefined\<close>, and reading its name throws a TypeError in the \<open>try\<close> and again in the
  \<open>catch\<close>, before the error counter. When the loop ends without a return (no
  attempt at all) the call returns \<open>undefined\<close>, here \<open>Inr None\<close>.
\<close>

function harvestSMTP_loop ::
  "env \<Rightarrow> harvester list \<Rightarrow> nat \<Rightarrow> nat \<Rightarrow> world \<Rightarrow> nat list
   \<Rightarrow> (js_error + smtp option) \<times> world \<times> nat list" where
  "harvestSMTP_loop e enabledHarvesters retries attempt w selected =
     (if attempt < retries then
        (if enabledHarvesters = [] then (Inl TypeError, w, selected)
         else
           (let harvesterIndex = (rotations (MAGIC_STATS w) + attempt) mod length enabledHarvesters;
                harvester = enabledHarvesters ! harvesterIndex
            in case harvest_verify e (tick w) harvesterIndex of
                 Some smtp \<Rightarrow>
                   (Inr (Some smtp),
                    advance (upd_stats (\<lambda>m. m\<lparr>rotations := rotations m + 1,
                                              currentSMTP := Some (name harvester)\<rparr>) w),
                    selected @ [harvesterIndex])
               | None \<Rightarrow>
                   (let w' = advance (upd_stats (\<lambda>m. m\<lparr>errors := errors m + 1\<rparr>) w) in
                    if attempt = retries - 1
                    then (Inl (AllHarvestersFailed retries), w', selected @ [harvesterIndex])
                    else harvestSMTP_loop e enabledHarvesters retries (attempt + 1) w'
                           (selected @ [harvesterIndex]))))
      else (Inr None, w, selected))"
  by pat_completeness auto
termination
  by (relation "measure (\<lambda>(e, hs, retries, attempt, w, sel). retries - attempt)") auto

declare harvestSMTP_loop.simps [simp del]

definition harvestSMTP ::
  "env \<Rightarrow> harvester list \<Rightarrow> nat \<Rightarrow> world \<Rightarrow> (js_error + smtp option) \<times> world \<times> nat list" where
  "harvestSMTP e harvesters retries w =
     harvestSMTP_loop e (filter enabled harvesters) retries 0 w []"

section \<open>The launch endpoint\<close>

text \<open>
  The request body. An absent field is \<open>None\<close>; \<open>batchSize\<close> is a non-negative
  integer and defaults to 25 when absent.
\<close>

record request =
  targets :: "targets_in option"
  template :: "template option"
  batchSize :: "nat option"
  campaignName :: "jsstring option"

text \<open>
  \<open>updateData\<close>, the progress event. Its fields \<open>sent\<close>, \<open>failed\<close>, \<open>smtp\<close>
  and \<open>speed\<close> carry the prefix \<open>upd_\<close> here. With a batch size of 0,
  \<open>currentBatch\<close> is \<open>NaN\<close> and \<open>totalBatches\<close> is \<open>Infinity\<close>, both written as
  \<open>null\<close>: \<open>None\<close> here.
\<close>

record updateData =
  progress :: int
  upd_sent :: nat
  totalSent :: nat
  batch :: nat
  successful :: nat
  upd_failed :: nat
  upd_smtp :: jsstring
  upd_speed :: int
  eta :: int
  currentBatch :: "nat option"
  totalBatches :: "int option"

text \<open>
  The events: \<open>Started campaignId total name\<close>, \<open>Progress updateData\<close>,
  \<open>Completed totalSent totalTargets successRate duration campaignId\<close> and
  \<open>Error error campaignId\<close>.
\<close>

datatype event =
    Started jsstring nat jsstring
  | Progress updateData
  | Completed nat nat int int jsstring
  | Error js_error jsstring

text \<open>
  The response: a JSON body with a status, or the event stream written with
  \<open>res.write\<close>.
\<close>

datatype response = Json nat jsstring | EventStream "event list"

text \<open>\<open>xs.slice(a, b)\<close> for indices within the list.\<close>

definition slice :: "'a list \<Rightarrow> nat \<Rightarrow> nat \<Rightarrow> 'a list" where
  "slice xs a b = take (b - a) (drop a xs)"

text \<open>
  What the batch loop carries: the world, \<open>totalSent\<close>, the events written to the
  response and those emitted on the socket. \<open>dispatched\<close> lists the batches handed to
  \<open>sendBatch\<close> so far; it is not in the source.
\<close>

record run =
  run_world :: world
  run_totalSent :: nat
  written :: "event list"
  emitted :: "event list"
  dispatched :: "jsstring list list"

text \<open>\<^verbatim>\<open>smtp.user.split('@')[1] || smtp.user.substring(0, 20) + '...'\<close>\<close>

definition smtp_label :: "smtp \<Rightarrow> jsstring" where
  "smtp_label s = or_else (at_index (split 64 (user s)) 1) (take 20 (user s) @ js ''...'')"

text \<open>
  One pass of the body of the batch loop at index \<open>i\<close>: the error thrown, if any,
  and the state after it.
\<close>

definition launch_step ::
  "env \<Rightarrow> harvester list \<Rightarrow> template \<Rightarrow> jsstring list \<Rightarrow> nat \<Rightarrow> nat \<Rightarrow> nat \<Rightarrow> run
   \<Rightarrow> js_error option \<times> run" where
  "launch_step e hs t targetList bSize startTime i r =
     (let batch = slice targetList i (min (i + bSize) (length targetList)) in
      case harvestSMTP e hs 3 (run_world r) of
        (Inl err, w1, sel) \<Rightarrow> (Some err, r\<lparr>run_world := w1\<rparr>)
      | (Inr None, w1, sel) \<Rightarrow> (Some TypeError, r\<lparr>run_world := w1\<rparr>)
      | (Inr (Some smtp), w1, sel) \<Rightarrow>
          (let (results, w2) = sendBatch e smtp batch t w1;
               n_successful = length (filter (\<lambda>x. status x = Success) results);
               total = run_totalSent r + n_successful;
               pct = Math_round (of_nat (i + length batch) / of_nat (length targetList) * 100);
               elapsed = (of_nat (Date_now e (tick w2)) - of_nat startTime) / (1000 :: rat);
               spd = (if elapsed > 0 then Math_round (of_nat total / elapsed) else 0);
               remaining = length targetList - (i + length batch);
               estimatedTime = (if spd > 0 then Math_round (of_nat remaining / of_int spd) else 0);
               upd = \<lparr>progress = pct,
                      upd_sent = sent (MAGIC_STATS w2),
                      totalSent = total,
                      batch = length batch,
                      successful = n_successful,
                      upd_failed = length results - n_successful,
                      upd_smtp = smtp_label smtp,
                      upd_speed = spd,
                      eta = estimatedTime,
                      currentBatch = (if bSize = 0 then None else Some (i div bSize + 1)),
                      totalBatches =
                        (if bSize = 0 then None
                         else Some \<lceil>(of_nat (length targetList) :: rat) / of_nat bSize\<rceil>)\<rparr>
           in (None,
               r\<lparr>run_world := advance w2,
                 run_totalSent := total,
                 written := written r @ [Progress upd],
                 emitted := emitted r @ [Progress upd],
                 dispatched := dispatched r @ [batch]\<rparr>)))"

text \<open>
  The batch loop \<^verbatim>\<open>for (let i = 0; i < targetList.length; i += batchSize)\<close>.
  With a batch size of 0 it goes on for as long as credentials are harvested, so
  it is a partial function: \<open>None\<close> when the loop never ends.
\<close>

partial_function (option) launch_loop ::
  "env \<Rightarrow> harvester list \<Rightarrow> template \<Rightarrow> jsstring list \<Rightarrow> nat \<Rightarrow> nat \<Rightarrow> nat \<Rightarrow> run
   \<Rightarrow> (js_error option \<times> run) option" where
  "launch_loop e hs t targetList bSize startTime i r =
     (if i < length targetList then
        (case launch_step e hs t targetList bSize startTime i r of
           (Some err, r') \<Rightarrow> Some (Some err, r')
         | (None, r') \<Rightarrow> launch_loop e hs t targetList bSize startTime (i + bSize) r')
      else Some (None, r))"

text \<open>
  Lines 380 to 400, once the request is accepted: \<open>active\<close> and
  \<open>currentCampaign\<close> are set, the \<open>started\<close> event is written, and the loop
  starts with \<open>totalSent = 0\<close>. The result is \<open>campaignId\<close>, \<open>startTime\<close> and the
  state the loop starts in.
\<close>

definition launch_start ::
  "env \<Rightarrow> request \<Rightarrow> jsstring list \<Rightarrow> world \<Rightarrow> jsstring \<times> nat \<times> run" where
  "launch_start e req targetList w =
     (let cname = or_else (campaignName req) (js ''Campaign-'' @ toString (Date_now e (tick w)));
          w1 = upd_stats (\<lambda>m. m\<lparr>active := True, currentCampaign := Some cname\<rparr>) w;
          campaignId = uuidv4 e (tick w1);
          started = Started campaignId (length targetList) cname;
          startTime = Date_now e (tick w1)
      in (campaignId, startTime,
          \<lparr>run_world = advance w1, run_totalSent = 0, written = [started], emitted = [],
           dispatched = []\<rparr>))"

text \<open>
  Lines 444 to 468, after the loop: the \<open>completed\<close> event, or in the \<open>catch\<close> the
  \<open>error\<close> event, written and emitted; then the \<open>finally\<close> clears \<open>active\<close> and
  \<open>currentCampaign\<close>.
\<close>

definition launch_finish ::
  "env \<Rightarrow> jsstring \<Rightarrow> nat \<Rightarrow> jsstring list \<Rightarrow> js_error option \<times> run
   \<Rightarrow> response \<times> event list \<times> jsstring list list \<times> world" where
  "launch_finish e campaignId startTime targetList res =
     (case res of
        (thrown, r) \<Rightarrow>
          (let w2 = run_world r;
               final =
                 (case thrown of
                    None \<Rightarrow>
                      Completed (run_totalSent r) (length targetList)
                        (Math_round (of_nat (run_totalSent r) / of_nat (length targetList) * 100))
                        (Math_round ((of_nat (Date_now e (tick w2)) - of_nat startTime) / 1000))
                        campaignId
                  | Some err \<Rightarrow> Error err campaignId);
               w3 = upd_stats (\<lambda>m. m\<lparr>active := False, currentCampaign := None\<rparr>) w2
           in (EventStream (written r @ [final]), emitted r @ [final], dispatched r, w3)))"

text \<open>The events of a response, and the progress events among them.\<close>

fun events_of :: "response \<Rightarrow> event list" where
  "events_of (EventStream evs) = evs"
| "events_of (Json c msg) = []"

fun progress_of :: "event list \<Rightarrow> updateData list" where
  "progress_of [] = []"
| "progress_of (Progress u # evs) = u # progress_of evs"
| "progress_of (ev # evs) = progress_of evs"

text \<open>The batch size of a request, 25 when absent.\<close>

definition batchSize_of :: "request \<Rightarrow> nat" where
  "batchSize_of req = (case batchSize req of None \<Rightarrow> 25 | Some b \<Rightarrow> b)"

text \<open>
  The handler after authentication. The result is the response, the events emitted
  on the socket, the batches dispatched and the world afterwards; \<open>None\<close> when the
  batch loop never ends.
\<close>

definition launch ::
  "env \<Rightarrow> harvester list \<Rightarrow> request \<Rightarrow> world
   \<Rightarrow> (response \<times> event list \<times> jsstring list list \<times> world) option" where
  "launch e hs req w =
     (case (targets req, template req) of
        (Some tgs, Some t) \<Rightarrow>
          if tgs = TString [] then Some (Json 400 (js ''Missing required fields''), [], [], w)
          else
            (let targetList = targetList_of tgs;
                 bSize = batchSize_of req
             in if length targetList = 0
                then Some (Json 400 (js ''No valid email targets provided''), [], [], w)
                else if falsy (subject t) \<or> falsy (html t)
                then Some (Json 400 (js ''Invalid template format''), [], [], w)
                else
                  (case launch_start e req targetList w of
                     (campaignId, startTime, r0) \<Rightarrow>
                       map_option (launch_finish e campaignId startTime targetList)
                         (launch_loop e hs t targetList bSize startTime 0 r0)))
      | _ \<Rightarrow> Some (Json 400 (js ''Missing required fields''), [], [], w))"

text \<open>The events that end a run, and the one that ends a run without an error.\<close>

fun is_terminal :: "event \<Rightarrow> bool" where
  "is_terminal (Completed a b c d f) = True"
| "is_terminal (Error err cid) = True"
| "is_terminal ev = False"

fun is_completed :: "event \<Rightarrow> bool" where
  "is_completed (Completed a b c d f) = True"
| "is_completed ev = False"

section \<open>Example inputs\<close>

text \<open>
  A credential, a template, the initial world, and three environments: one where
  every harvest and every send succeeds, one where the relay rejects every message,
  and one where no harvester delivers a credential that verifies.
\<close>

definition smtp0 :: smtp where
  "smtp0 = \<lparr>user = js ''box@relay.test'', pass = js ''pw'', host = js ''smtp.relay.test'',
            port = 587, secure = False\<rparr>"

definition env_ok :: env where
  "env_ok =
     \<lparr>harvest_verify = (\<lambda>t i. Some smtp0), sendMail = (\<lambda>t s m. None),
      Date_now = (\<lambda>t. 1000 * t), toLocaleDateString = (\<lambda>t. js ''1/1/2024''),
      toLocaleTimeString = (\<lambda>t. js ''12:00:00''), uuidv4 = (\<lambda>t. js ''run'')\<rparr>"

definition env_reject :: env where
  "env_reject = env_ok\<lparr>sendMail := (\<lambda>t s m. Some (js ''rejected''))\<rparr>"

definition env_down :: env where
  "env_down = env_ok\<lparr>harvest_verify := (\<lambda>t i. None)\<rparr>"

definition tmpl0 :: template where
  "tmpl0 = \<lparr>subject = Some (js ''Hi {{target}} {{nope}}''),
            html = Some (js ''<a href={{phish}}>{{email}}</a>''),
            sender = None, phishLink = None\<rparr>"

definition world0 :: world where
  "world0 = \<lparr>MAGIC_STATS = MAGIC_STATS_init, tick = 0, outbox = []\<rparr>"

text \<open>
  An environment where the first two harvest attempts fail, a world whose rotation
  counter is 1, a request with two lines and batches of one, and an empty loop state.
\<close>

definition env_third :: env where
  "env_third = env_ok\<lparr>harvest_verify := (\<lambda>t i. if t < 2 then None else Some smtp0)\<rparr>"

definition world1 :: world where
  "world1 = upd_stats (\<lambda>m. m\<lparr>rotations := 1\<rparr>) world0"

definition req0 :: request where
  "req0 = \<lparr>targets = Some (TString (js ''a@b.com\<newline>c@d.com'')), template = Some tmpl0,
           batchSize = Some 1, campaignName = None\<rparr>"

definition run0 :: run where
  "run0 = \<lparr>run_world = world0, run_totalSent = 0, written = [], emitted = [], dispatched = []\<rparr>"

text \<open>
  A world in which 5 messages were sent before, a request with one target, and a
  request with three targets in batches of two.
\<close>

definition world5 :: world where
  "world5 = upd_stats (\<lambda>m. m\<lparr>sent := 5\<rparr>) world0"

definition req1 :: request where
  "req1 = \<lparr>targets = Some (TArray [js ''a@b.com'']), template = Some tmpl0, batchSize = None,
           campaignName = None\<rparr>"

definition req3 :: request where
  "req3 = \<lparr>targets = Some (TArray [js ''a@b.com'', js ''bad'', js ''c@d.com'']),
           template = Some tmpl0, batchSize = Some 2, campaignName = None\<rparr>"

lemmas eval_defs =
  sendBatch_def Let_def js_def trim_def isWhiteSpace_def invalid_email_def includes_at_def
  compose_def render_subject_def render_html_def subject_callback_def html_callback_def
  match_here_def placeholder_def or_else_def falsy_def upd_stats_def advance_def
  env_ok_def env_reject_def env_down_def smtp0_def tmpl0_def world0_def MAGIC_STATS_init_def
  Math_round_def isWordChar_def undefined_replace_def launch_keep_def targetList_of_def
  harvestSMTP_def SMTP_HARVESTERS_def subject_names_def html_names_def
  launch_def launch_start_def launch_finish_def launch_step_def slice_def smtp_label_def
  at_index_def batchSize_of_def req0_def req1_def req3_def world5_def world1_def env_third_def
  run0_def

section \<open>Substitution: one scan, values copied as they are\<close>

lemma not_word_brace: "\<not> isWordChar 123" "\<not> isWordChar 125"
  by (simp_all add: isWordChar_def)

lemma match_here_placeholder:
  assumes "k \<noteq> []" "\<forall>c \<in> set k. isWordChar c"
  shows "match_here (placeholder k @ post) = Some (k, post)"
proof -
  have tw: "takeWhile isWordChar (k @ 125 # 125 # post) = k"
    using assms(2) by (simp add: takeWhile_append2 not_word_brace)
  have dw: "dropWhile isWordChar (k @ 125 # 125 # post) = 125 # 125 # post"
    using assms(2) by (simp add: dropWhile_append2 not_word_brace)
  show ?thesis
    using assms(1) by (simp add: match_here_def placeholder_def tw dw)
qed

lemma match_here_before_brace:
  assumes "s \<noteq> []"
  shows "match_here (s @ 123 # 123 # u) =
           (case match_here s of None \<Rightarrow> None | Some (k, after) \<Rightarrow> Some (k, after @ 123 # 123 # u))"
proof (cases s)
  case Nil
  with assms show ?thesis by simp
next
  case (Cons a s')
  show ?thesis
  proof (cases s')
    case Nil
    with Cons show ?thesis by (simp add: match_here_def not_word_brace)
  next
    case (Cons b rest)
    have tw: "takeWhile isWordChar (rest @ 123 # 123 # u) = takeWhile isWordChar rest"
      by (induction rest) (simp_all add: not_word_brace)
    have dw: "dropWhile isWordChar (rest @ 123 # 123 # u) = dropWhile isWordChar rest @ 123 # 123 # u"
      by (induction rest) (simp_all add: not_word_brace)
    have aux: "(case d @ 123 # 123 # u of
                  c # e # after \<Rightarrow> if c = 125 \<and> e = 125 then Some (k, after) else None
                | _ \<Rightarrow> None) =
               (case (case d of
                        c # e # after \<Rightarrow> if c = 125 \<and> e = 125 then Some (k, after) else None
                      | _ \<Rightarrow> None) of
                  None \<Rightarrow> None
                | Some (k, after) \<Rightarrow> Some (k, after @ 123 # 123 # u))" for d :: jsstring and k :: jsstring
    proof (cases d)
      case Nil
      then show ?thesis by simp
    next
      case (Cons x r2)
      then show ?thesis by (cases r2) simp_all
    qed
    show ?thesis
      using \<open>s = a # s'\<close> \<open>s' = b # rest\<close>
      by (simp add: match_here_def tw dw Let_def aux)
  qed
qed

lemma replace_before_brace:
  "replace f (s @ 123 # 123 # u) = replace f s @ replace f (123 # 123 # u)"
proof (induction f s rule: replace.induct)
  case (1 f)
  show ?case by simp
next
  case (2 f c cs)
  show ?case
  proof (cases "match_here (c # cs)")
    case None
    then have "match_here ((c # cs) @ 123 # 123 # u) = None"
      by (subst match_here_before_brace) simp_all
    with None 2 show ?thesis by simp
  next
    case (Some p)
    obtain k after where p: "p = (k, after)" by (cases p)
    with Some have "match_here ((c # cs) @ 123 # 123 # u) = Some (k, after @ 123 # 123 # u)"
      by (subst match_here_before_brace) simp_all
    with Some p 2 show ?thesis by simp
  qed
qed

lemma replace_placeholder_split:
  assumes "k \<noteq> []" "\<forall>c \<in> set k. isWordChar c"
  shows "replace f (pre @ placeholder k @ post) =
           replace f pre @ f (placeholder k) k @ replace f post"
proof -
  have ph: "placeholder k @ post = 123 # 123 # (k @ 125 # 125 # post)"
    by (simp add: placeholder_def)
  have "replace f (pre @ placeholder k @ post) = replace f pre @ replace f (placeholder k @ post)"
    unfolding ph by (rule replace_before_brace)
  also have "replace f (placeholder k @ post) = f (placeholder k) k @ replace f post"
    using match_here_placeholder[OF assms, of post] by (simp add: ph)
  finally show ?thesis .
qed

lemma match_here_shape:
  "match_here s = Some (k, after) \<Longrightarrow> s = placeholder k @ after"
proof -
  assume m: "match_here s = Some (k, after)"
  then obtain a b rest where s: "s = a # b # rest"
    by (cases s; cases "tl s") (auto simp: match_here_def)
  from m s have ab: "a = 123" "b = 123" and k: "k = takeWhile isWordChar rest"
    and d: "dropWhile isWordChar rest = 125 # 125 # after"
    by (auto simp: match_here_def Let_def split: if_splits list.splits)
  have "rest = takeWhile isWordChar rest @ dropWhile isWordChar rest" by simp
  with k d have "rest = k @ 125 # 125 # after" by simp
  with s ab show ?thesis by (simp add: placeholder_def)
qed

lemma replace_unresolved:
  "\<forall>k \<in> set (placeholder_keys s). f (placeholder k) k = placeholder k \<Longrightarrow> replace f s = s"
proof (induction f s rule: replace.induct)
  case (1 f)
  show ?case by simp
next
  case (2 f c cs)
  show ?case
  proof (cases "match_here (c # cs)")
    case None
    with 2 show ?thesis by simp
  next
    case (Some p)
    obtain k after where p: "p = (k, after)" by (cases p)
    from Some p have shape: "c # cs = placeholder k @ after" by (simp add: match_here_shape)
    from 2 Some p have "f (placeholder k) k = placeholder k" "replace f after = after" by auto
    moreover from Some p have "replace f (c # cs) = f (placeholder k) k @ replace f after" by simp
    ultimately show ?thesis using shape by simp
  qed
qed

section \<open>Facts about sendBatch\<close>




lemma sendBatch_loop_sent:
  "sendBatch_loop e s t tgs w results n = (w', results', n') \<Longrightarrow>
   sent (MAGIC_STATS w') + length (filter (\<lambda>r. status r = Success) results) =
     sent (MAGIC_STATS w) + length (filter (\<lambda>r. status r = Success) results')"
  by (induction tgs arbitrary: w results n)
     (fastforce simp: Let_def upd_stats_def advance_def split: if_splits option.splits)+



lemma sendBatch_unfold:
  assumes "sendBatch e s tgs t w = (results, w')"
  shows "\<exists>w1 n. sendBatch_loop e s t tgs (advance w) [] 0 = (w1, results, n)
           \<and> sent (MAGIC_STATS w') = sent (MAGIC_STATS w1)
           \<and> errors (MAGIC_STATS w') = errors (MAGIC_STATS w1)
           \<and> outbox w' = outbox w1"
proof -
  obtain w1 r1 n where l: "sendBatch_loop e s t tgs (advance w) [] 0 = (w1, r1, n)"
    by (cases "sendBatch_loop e s t tgs (advance w) [] 0") auto
  with assms show ?thesis
    by (auto simp: sendBatch_def Let_def upd_stats_def advance_def)
qed





section \<open>The claims about sendBatch and the validity rule\<close>










section \<open>The claim about placeholders\<close>

text \<open>
  C7. A placeholder \<open>{{k}}\<close> anywhere in a subject or body is replaced by the value
  of the callback for \<open>k\<close>, between the renderings of what precedes and what follows
  it: the value is copied as it is and never scanned. For a key that the callback
  does not recognise the value is the placeholder itself, so it is left verbatim.
  A text whose placeholders are all unrecognised is rendered to itself, and so is
  its rendering.
\<close>

theorem C7_unresolved_placeholders_verbatim:
  "(k \<noteq> [] \<and> (\<forall>c \<in> set k. isWordChar c) \<longrightarrow>
      render_subject e w email (pre @ placeholder k @ post)
        = render_subject e w email pre @ subject_callback e w email (placeholder k) k
            @ render_subject e w email post
      \<and> render_html e w s t email (pre @ placeholder k @ post)
        = render_html e w s t email pre @ html_callback e w s t email (placeholder k) k
            @ render_html e w s t email post)
   \<and> (k \<notin> set subject_names \<longrightarrow> subject_callback e w email (placeholder k) k = placeholder k)
   \<and> (k \<notin> set html_names \<longrightarrow> html_callback e w s t email (placeholder k) k = placeholder k)
   \<and> (set (placeholder_keys tx) \<inter> set subject_names = {} \<longrightarrow>
        render_subject e w email tx = tx
        \<and> render_subject e w email (render_subject e w email tx) = render_subject e w email tx)
   \<and> (set (placeholder_keys tx) \<inter> set html_names = {} \<longrightarrow>
        render_html e w s t email tx = tx
        \<and> render_html e w s t email (render_html e w s t email tx) = render_html e w s t email tx)"
proof -
  have a: "k \<noteq> [] \<and> (\<forall>c \<in> set k. isWordChar c) \<longrightarrow>
      render_subject e w email (pre @ placeholder k @ post)
        = render_subject e w email pre @ subject_callback e w email (placeholder k) k
            @ render_subject e w email post
      \<and> render_html e w s t email (pre @ placeholder k @ post)
        = render_html e w s t email pre @ html_callback e w s t email (placeholder k) k
            @ render_html e w s t email post"
    by (simp add: render_subject_def render_html_def replace_placeholder_split)
  have b: "k \<notin> set subject_names \<longrightarrow> subject_callback e w email (placeholder k) k = placeholder k"
    by (simp add: subject_names_def subject_callback_def)
  have c: "k \<notin> set html_names \<longrightarrow> html_callback e w s t email (placeholder k) k = placeholder k"
    by (simp add: html_names_def html_callback_def)
  have d: "render_subject e w email tx = tx"
    if "set (placeholder_keys tx) \<inter> set subject_names = {}"
    unfolding render_subject_def
  proof (rule replace_unresolved, rule ballI)
    fix x assume "x \<in> set (placeholder_keys tx)"
    with that have "x \<notin> set subject_names" by blast
    then show "subject_callback e w email (placeholder x) x = placeholder x"
      by (simp add: subject_names_def subject_callback_def)
  qed
  have f: "render_html e w s t email tx = tx"
    if "set (placeholder_keys tx) \<inter> set html_names = {}"
    unfolding render_html_def
  proof (rule replace_unresolved, rule ballI)
    fix x assume "x \<in> set (placeholder_keys tx)"
    with that have "x \<notin> set html_names" by blast
    then show "html_callback e w s t email (placeholder x) x = placeholder x"
      by (simp add: html_names_def html_callback_def)
  qed
  from a b c d f show ?thesis by simp
qed

text \<open>
  The subject \<open>Hi {{target}} {{nope}}!\<close> for \<open>a@b.com\<close> keeps \<open>{{nope}}\<close>; the
  body \<open>{{phish}}{{first_name}}\<close> with the link \<open>{{target}}\<close> keeps the link as it is
  and \<open>{{first_name}}\<close>; \<open>{{a}} and {{b}}\<close> is rendered to itself.
\<close>

theorem C7_unresolved_placeholders_verbatim_witness:
  "render_subject env_ok world0 (js ''a@b.com'') (js ''Hi {{target}} {{nope}}!'')
     = js ''Hi a {{nope}}!''
   \<and> render_html env_ok world0 smtp0 (tmpl0\<lparr>phishLink := Some (js ''{{target}}'')\<rparr>) (js ''a@b.com'')
        (js ''{{phish}}{{first_name}}'')
     = js ''{{target}}{{first_name}}''
   \<and> render_html env_ok world0 smtp0 tmpl0 (js ''a@b.com'') (js ''{{a}} and {{b}}'')
     = js ''{{a}} and {{b}}''
   \<and> render_subject env_ok world0 (js ''a@b.com'')
        (render_subject env_ok world0 (js ''a@b.com'') (js ''{{a}} and {{b}}''))
     = render_subject env_ok world0 (js ''a@b.com'') (js ''{{a}} and {{b}}'')"
proof -
  let ?t = "tmpl0\<lparr>phishLink := Some (js ''{{target}}'')\<rparr>"
  have k1: "js ''nope'' \<noteq> [] \<and> (\<forall>c \<in> set (js ''nope''). isWordChar c)"
    by (simp add: js_def isWordChar_def)
  have n1: "js ''nope'' \<notin> set subject_names" "js ''nope'' \<notin> set html_names"
    by (simp_all add: js_def subject_names_def html_names_def)
  have u: "set (placeholder_keys (js ''{{a}} and {{b}}'')) \<inter> set subject_names = {}"
          "set (placeholder_keys (js ''{{a}} and {{b}}'')) \<inter> set html_names = {}"
    by (simp_all add: eval_defs)
  have p1: "render_subject env_ok world0 (js ''a@b.com'') (js ''Hi {{target}} '') = js ''Hi a ''"
    by (simp add: eval_defs)
  have p2: "render_subject env_ok world0 (js ''a@b.com'') (js ''!'') = js ''!''"
    by (simp add: eval_defs)
  have s1: "js ''Hi {{target}} {{nope}}!'' = js ''Hi {{target}} '' @ placeholder (js ''nope'') @ js ''!''"
    by (simp add: js_def placeholder_def)
  have h: "render_html env_ok world0 smtp0 ?t (js ''a@b.com'') (js ''{{phish}}{{first_name}}'')
             = js ''{{target}}{{first_name}}''"
    by (simp add: eval_defs)
  from C7_unresolved_placeholders_verbatim
         [of "js ''nope''" env_ok world0 "js ''a@b.com''" "js ''Hi {{target}} ''" "js ''!''"
             smtp0 tmpl0 "js ''{{a}} and {{b}}''"]
       k1 n1 u
  have "render_subject env_ok world0 (js ''a@b.com'')
          (js ''Hi {{target}} '' @ placeholder (js ''nope'') @ js ''!'')
          = render_subject env_ok world0 (js ''a@b.com'') (js ''Hi {{target}} '')
              @ placeholder (js ''nope'') @ render_subject env_ok world0 (js ''a@b.com'') (js ''!'')"
    and "render_html env_ok world0 smtp0 tmpl0 (js ''a@b.com'') (js ''{{a}} and {{b}}'')
          = js ''{{a}} and {{b}}''"
    and "render_subject env_ok world0 (js ''a@b.com'')
          (render_subject env_ok world0 (js ''a@b.com'') (js ''{{a}} and {{b}}''))
          = render_subject env_ok world0 (js ''a@b.com'') (js ''{{a}} and {{b}}'')"
    by simp_all
  with p1 p2 s1 h show ?thesis
    by (simp add: js_def placeholder_def)
qed

section \<open>Facts about harvestSMTP\<close>

lemma harvestSMTP_loop_spec:
  assumes "harvestSMTP_loop e hs retries a w sel = (res, w', sel')" and "hs \<noteq> []"
  shows "\<exists>j. sel' = sel @ map (\<lambda>k. (rotations (MAGIC_STATS w) + k) mod length hs) [a..<a + j]
           \<and> sent (MAGIC_STATS w') = sent (MAGIC_STATS w)
           \<and> outbox w' = outbox w
           \<and> (case res of
                 Inr (Some smtp) \<Rightarrow>
                   rotations (MAGIC_STATS w') = rotations (MAGIC_STATS w) + 1
                   \<and> 0 < j \<and> a + j \<le> retries
                   \<and> errors (MAGIC_STATS w') + 1 = errors (MAGIC_STATS w) + j
               | Inr None \<Rightarrow> j = 0 \<and> w' = w \<and> retries \<le> a
               | Inl err \<Rightarrow>
                   rotations (MAGIC_STATS w') = rotations (MAGIC_STATS w)
                   \<and> 0 < j \<and> a + j = retries \<and> err = AllHarvestersFailed retries
                   \<and> errors (MAGIC_STATS w') = errors (MAGIC_STATS w) + j)"
  using assms
proof (induction e hs retries a w sel rule: harvestSMTP_loop.induct)
  case (1 e hs retries a w sel)
  let ?R = "rotations (MAGIC_STATS w)"
  let ?x = "(?R + a) mod length hs"
  let ?w1 = "advance (upd_stats (\<lambda>m. m\<lparr>errors := errors m + 1\<rparr>) w)"
  note unf = harvestSMTP_loop.simps [of e hs retries a w sel]
  note body = "1.prems"(1) [unfolded unf]
  show ?case
  proof (cases "a < retries")
    case False
    with body have "res = Inr None" "w' = w" "sel' = sel"
      by simp_all
    with False show ?thesis by (intro exI [of _ 0]) simp
  next
    case True
    show ?thesis
    proof (cases "harvest_verify e (tick w) ?x")
      case (Some smtp)
      with True body "1.prems"(2) have
        "res = Inr (Some smtp)" "sel' = sel @ [?x]"
        "w' = advance (upd_stats (\<lambda>m. m\<lparr>rotations := rotations m + 1,
                                          currentSMTP := Some (name (hs ! ?x))\<rparr>) w)"
        by (simp_all add: Let_def)
      with True show ?thesis
        by (intro exI [of _ 1]) (simp add: upd_stats_def advance_def)
    next
      case None
      show ?thesis
      proof (cases "a = retries - 1")
        case last: True
        with None True body "1.prems"(2) have
          "res = Inl (AllHarvestersFailed retries)" "sel' = sel @ [?x]" "w' = ?w1"
          by (simp_all add: Let_def)
        then have r: "res = Inl (AllHarvestersFailed retries)"
          "sel' = sel @ map (\<lambda>k. (?R + k) mod length hs) [a..<a + 1]" "w' = ?w1"
          by simp_all
        from True last have "retries = Suc a" by arith
        with r show ?thesis
          by (intro exI [of _ 1]) (simp add: upd_stats_def advance_def)
      next
        case more: False
        with None True body "1.prems"(2) have
          rec: "harvestSMTP_loop e hs retries (a + 1) ?w1 (sel @ [?x]) = (res, w', sel')"
          by (simp add: Let_def)
        have R: "rotations (MAGIC_STATS ?w1) = ?R" "sent (MAGIC_STATS ?w1) = sent (MAGIC_STATS w)"
          "outbox ?w1 = outbox w" "errors (MAGIC_STATS ?w1) = errors (MAGIC_STATS w) + 1"
          by (simp_all add: upd_stats_def advance_def)
        from "1.IH" [OF True "1.prems"(2) refl refl None refl more rec "1.prems"(2)]
        obtain j where j:
          "sel' = (sel @ [?x]) @ map (\<lambda>k. (?R + k) mod length hs) [a + 1..<a + 1 + j]"
          "sent (MAGIC_STATS w') = sent (MAGIC_STATS w)"
          "outbox w' = outbox w"
          "(case res of
              Inr (Some smtp) \<Rightarrow>
                rotations (MAGIC_STATS w') = ?R + 1 \<and> 0 < j \<and> a + 1 + j \<le> retries
                \<and> errors (MAGIC_STATS w') + 1 = errors (MAGIC_STATS w) + 1 + j
            | Inr None \<Rightarrow> j = 0 \<and> w' = ?w1 \<and> retries \<le> a + 1
            | Inl err \<Rightarrow>
                rotations (MAGIC_STATS w') = ?R \<and> 0 < j \<and> a + 1 + j = retries
                \<and> err = AllHarvestersFailed retries
                \<and> errors (MAGIC_STATS w') = errors (MAGIC_STATS w) + 1 + j)"
          unfolding R by blast
        have up: "[a..<a + Suc j] = a # [a + 1..<a + 1 + j]"
          by (simp add: upt_conv_Cons)
        from True more have "\<not> retries \<le> a + 1" by arith
        with j up show ?thesis
          by (intro exI [of _ "Suc j"]) (auto split: sum.splits option.splits)
      qed
    qed
  qed
qed

lemma harvestSMTP_loop_all_fail:
  assumes "hs \<noteq> []" and "a < retries"
    and "\<forall>k. a \<le> k \<and> k < retries \<longrightarrow>
           harvest_verify e (tick w + (k - a)) ((rotations (MAGIC_STATS w) + k) mod length hs) = None"
  shows "\<exists>w' sel'. harvestSMTP_loop e hs retries a w sel
                     = (Inl (AllHarvestersFailed retries), w', sel')
           \<and> errors (MAGIC_STATS w') = errors (MAGIC_STATS w) + (retries - a)
           \<and> MAGIC_STATS w' = (MAGIC_STATS w)\<lparr>errors := errors (MAGIC_STATS w')\<rparr>
           \<and> outbox w' = outbox w"
  using assms
proof (induction e hs retries a w sel rule: harvestSMTP_loop.induct)
  case (1 e hs retries a w sel)
  let ?R = "rotations (MAGIC_STATS w)"
  let ?x = "(?R + a) mod length hs"
  let ?w1 = "advance (upd_stats (\<lambda>m. m\<lparr>errors := errors m + 1\<rparr>) w)"
  note unf = harvestSMTP_loop.simps [of e hs retries a w sel]
  from "1.prems" have None: "harvest_verify e (tick w) ?x = None"
    by (metis add_0_right diff_self_eq_0 le_refl)
  show ?case
  proof (cases "a = retries - 1")
    case True
    have "harvestSMTP_loop e hs retries a w sel
            = (Inl (AllHarvestersFailed retries), ?w1, sel @ [?x])"
      unfolding unf using None "1.prems"(1,2) True by (simp add: Let_def)
    moreover from True "1.prems"(2) have "retries - a = 1" by arith
    ultimately show ?thesis
      by (simp add: upd_stats_def advance_def)
  next
    case False
    with "1.prems" have lt: "a + 1 < retries" by arith
    have R: "rotations (MAGIC_STATS ?w1) = ?R" "tick ?w1 = tick w + 1"
      by (simp_all add: upd_stats_def advance_def)
    have "\<forall>k. a + 1 \<le> k \<and> k < retries \<longrightarrow>
            harvest_verify e (tick ?w1 + (k - (a + 1)))
              ((rotations (MAGIC_STATS ?w1) + k) mod length hs) = None"
    proof (intro allI impI)
      fix k assume k: "a + 1 \<le> k \<and> k < retries"
      then have "tick ?w1 + (k - (a + 1)) = tick w + (k - a)" unfolding R by arith
      with k "1.prems"(3) show "harvest_verify e (tick ?w1 + (k - (a + 1)))
              ((rotations (MAGIC_STATS ?w1) + k) mod length hs) = None"
        unfolding R(1) by simp
    qed
    from "1.IH" [OF "1.prems"(2) "1.prems"(1) refl refl None refl False "1.prems"(1) lt this]
    obtain w' sel' where
      rec: "harvestSMTP_loop e hs retries (a + 1) ?w1 (sel @ [?x])
              = (Inl (AllHarvestersFailed retries), w', sel')"
      and e: "errors (MAGIC_STATS w') = errors (MAGIC_STATS ?w1) + (retries - (a + 1))"
      and m: "MAGIC_STATS w' = (MAGIC_STATS ?w1)\<lparr>errors := errors (MAGIC_STATS w')\<rparr>"
      and ob: "outbox w' = outbox ?w1"
      by blast
    have "harvestSMTP_loop e hs retries a w sel = (Inl (AllHarvestersFailed retries), w', sel')"
      unfolding unf using None False "1.prems"(1,2) rec
      by (simp add: Let_def)
    moreover have "errors (MAGIC_STATS w') = errors (MAGIC_STATS w) + (retries - a)"
      using e lt by (simp add: upd_stats_def advance_def)
    moreover have "MAGIC_STATS w' = (MAGIC_STATS w)\<lparr>errors := errors (MAGIC_STATS w')\<rparr>"
      using m by (simp add: upd_stats_def advance_def)
    moreover have "outbox w' = outbox w"
      using ob by (simp add: upd_stats_def advance_def)
    ultimately show ?thesis by blast
  qed
qed

section \<open>Facts about the launch endpoint\<close>

lemma targetList_of_empty_string: "targetList_of (TString []) = []"
  by (simp add: targetList_of_def launch_keep_def includes_at_def trim_def)

lemma launch_accepted:
  assumes "targets req = Some tgs" and "template req = Some t"
    and "targetList_of tgs \<noteq> []" and "\<not> falsy (subject t)" and "\<not> falsy (html t)"
  shows "launch e hs req w =
           map_option
             (launch_finish e (fst (launch_start e req (targetList_of tgs) w))
                (fst (snd (launch_start e req (targetList_of tgs) w))) (targetList_of tgs))
             (launch_loop e hs t (targetList_of tgs) (batchSize_of req)
                (fst (snd (launch_start e req (targetList_of tgs) w))) 0
                (snd (snd (launch_start e req (targetList_of tgs) w))))"
proof -
  from assms(3) have "tgs \<noteq> TString []"
    using targetList_of_empty_string by auto
  with assms show ?thesis
    by (simp add: launch_def Let_def split: prod.splits)
qed

lemma launch_rejected:
  assumes "(case targets req of None \<Rightarrow> True | Some tgs \<Rightarrow> targetList_of tgs = [])
           \<or> (case template req of None \<Rightarrow> True
               | Some t \<Rightarrow> falsy (subject t) \<or> falsy (html t))"
  shows "\<exists>msg. launch e hs req w = Some (Json 400 msg, [], [], w)"
  using assms
  by (auto simp: launch_def Let_def targetList_of_empty_string split: option.splits)


lemma launch_stream_accepted:
  assumes "launch e hs req w = Some (EventStream evs, io, bs, w')"
  shows "\<exists>tgs t. targets req = Some tgs \<and> template req = Some t \<and> targetList_of tgs \<noteq> []
           \<and> \<not> falsy (subject t) \<and> \<not> falsy (html t)"
  using assms
  by (auto simp: launch_def Let_def split: option.splits prod.splits if_splits)

lemma launch_start_facts:
  assumes "launch_start e req tgl w = (cid, st, r0)"
  shows "sent (MAGIC_STATS (run_world r0)) = sent (MAGIC_STATS w)"
    and "errors (MAGIC_STATS (run_world r0)) = errors (MAGIC_STATS w)"
    and "rotations (MAGIC_STATS (run_world r0)) = rotations (MAGIC_STATS w)"
    and "tick (run_world r0) = Suc (tick w)"
    and "run_totalSent r0 = 0" and "emitted r0 = []" and "dispatched r0 = []"
    and "\<exists>name. written r0 = [Started cid (length tgl) name]"
    and "active (MAGIC_STATS (run_world r0))"
  using assms by (auto simp: launch_start_def Let_def upd_stats_def advance_def)

lemma launch_finish_facts:
  assumes "launch_finish e cid st tgl (thr, r) = (resp, io, bs, w')"
  shows "active (MAGIC_STATS w') = False" and "currentCampaign (MAGIC_STATS w') = None"
    and "bs = dispatched r"
    and "\<exists>final. resp = EventStream (written r @ [final]) \<and> io = emitted r @ [final]
           \<and> is_terminal final \<and> (is_completed final \<longleftrightarrow> thr = None)
           \<and> (\<forall>err. thr = Some err \<longrightarrow> final = Error err cid)"
    and "sent (MAGIC_STATS w') = sent (MAGIC_STATS (run_world r))"
    and "errors (MAGIC_STATS w') = errors (MAGIC_STATS (run_world r))"
  using assms
  by (auto simp: launch_finish_def Let_def upd_stats_def split: option.splits)

lemma harvestSMTP_sent:
  assumes "harvestSMTP e hs retries w = (res, w1, sel)"
  shows "sent (MAGIC_STATS w1) = sent (MAGIC_STATS w)"
proof (cases "filter enabled hs = []")
  case True
  with assms show ?thesis
    by (simp add: harvestSMTP_def harvestSMTP_loop.simps [of e "[]"] split: if_splits)
next
  case False
  from assms have "harvestSMTP_loop e (filter enabled hs) retries 0 w [] = (res, w1, sel)"
    by (simp add: harvestSMTP_def)
  from harvestSMTP_loop_spec [OF this False] show ?thesis by blast
qed

lemma sendBatch_sent:
  assumes "sendBatch e s tgs t w = (results, w')"
  shows "sent (MAGIC_STATS w')
           = sent (MAGIC_STATS w) + length (filter (\<lambda>r. status r = Success) results)"
proof -
  from sendBatch_unfold [OF assms] obtain w1 n where
    l: "sendBatch_loop e s t tgs (advance w) [] 0 = (w1, results, n)" and
    eq: "sent (MAGIC_STATS w') = sent (MAGIC_STATS w1)"
    by blast
  from sendBatch_loop_sent [OF l] eq show ?thesis by (simp add: advance_def)
qed

lemma launch_step_None:
  assumes "launch_step e hs t tgl B st i r = (None, r2)"
  shows "\<exists>smtp w1 sel results w2 upd.
           harvestSMTP e hs 3 (run_world r) = (Inr (Some smtp), w1, sel)
           \<and> sendBatch e smtp (slice tgl i (min (i + B) (length tgl))) t w1 = (results, w2)
           \<and> run_world r2 = advance w2
           \<and> run_totalSent r2
               = run_totalSent r + length (filter (\<lambda>x. status x = Success) results)
           \<and> written r2 = written r @ [Progress upd]
           \<and> emitted r2 = emitted r @ [Progress upd]
           \<and> dispatched r2 = dispatched r @ [slice tgl i (min (i + B) (length tgl))]
           \<and> upd_sent upd = sent (MAGIC_STATS w2)
           \<and> totalSent upd = run_totalSent r2
           \<and> batch upd = length (slice tgl i (min (i + B) (length tgl)))
           \<and> currentBatch upd = (if B = 0 then None else Some (i div B + 1))
           \<and> totalBatches upd
               = (if B = 0 then None else Some \<lceil>(of_nat (length tgl) :: rat) / of_nat B\<rceil>)"
proof -
  obtain res w1 sel where h: "harvestSMTP e hs 3 (run_world r) = (res, w1, sel)"
    by (cases "harvestSMTP e hs 3 (run_world r)") auto
  with assms obtain smtp where res: "res = Inr (Some smtp)"
    by (auto simp: launch_step_def Let_def split: sum.splits option.splits)
  obtain results w2 where
    sb: "sendBatch e smtp (slice tgl i (min (i + B) (length tgl))) t w1 = (results, w2)"
    by (cases "sendBatch e smtp (slice tgl i (min (i + B) (length tgl))) t w1") auto
  from assms h res sb show ?thesis
    by (auto simp: launch_step_def Let_def)
qed

lemma launch_step_Some:
  assumes "launch_step e hs t tgl B st i r = (Some err, r2)"
  shows "written r2 = written r \<and> emitted r2 = emitted r \<and> dispatched r2 = dispatched r
         \<and> run_totalSent r2 = run_totalSent r"
  using assms
  by (auto simp: launch_step_def Let_def split: sum.splits option.splits prod.splits)

lemma launch_step_all_fail:
  assumes "filter enabled hs \<noteq> []"
    and "\<forall>k<3. harvest_verify e (tick (run_world r) + k)
                 ((rotations (MAGIC_STATS (run_world r)) + k) mod length (filter enabled hs)) = None"
  shows "\<exists>r2. launch_step e hs t tgl B st i r = (Some (AllHarvestersFailed 3), r2)
           \<and> written r2 = written r \<and> emitted r2 = emitted r \<and> dispatched r2 = dispatched r
           \<and> run_totalSent r2 = run_totalSent r
           \<and> errors (MAGIC_STATS (run_world r2)) = errors (MAGIC_STATS (run_world r)) + 3"
proof -
  have "\<forall>k. 0 \<le> k \<and> k < 3 \<longrightarrow>
          harvest_verify e (tick (run_world r) + (k - 0))
            ((rotations (MAGIC_STATS (run_world r)) + k) mod length (filter enabled hs)) = None"
    using assms(2) by simp
  from harvestSMTP_loop_all_fail [OF assms(1) _ this, of "[]"]
  obtain w1 sel where
    "harvestSMTP e hs 3 (run_world r) = (Inl (AllHarvestersFailed 3), w1, sel)"
    "errors (MAGIC_STATS w1) = errors (MAGIC_STATS (run_world r)) + 3"
    by (auto simp: harvestSMTP_def)
  then show ?thesis
    by (simp add: launch_step_def Let_def)
qed

lemma launch_loop_inv_aux:
  assumes "launch_loop e hs t tgl B st i r = Some y"
  shows "\<forall>I. I i r \<longrightarrow>
     (\<forall>i r r2. I i r \<longrightarrow> i < length tgl \<longrightarrow>
        launch_step e hs t tgl B st i r = (None, r2) \<longrightarrow> I (i + B) r2) \<longrightarrow>
     (\<exists>j r1. I j r1 \<and>
        (if j < length tgl
         then \<exists>err. fst y = Some err \<and> launch_step e hs t tgl B st j r1 = (Some err, snd y)
         else fst y = None \<and> snd y = r1))"
  using assms
proof (induction e hs t tgl B st i r y rule: launch_loop.raw_induct)
  case (1 loop e hs t tgl B st i r y)
  note IH = "1.IH" and body = "1.hyps" and real = "1.prems"
  show ?case
  proof (intro allI impI)
    fix I :: "nat \<Rightarrow> run \<Rightarrow> bool"
    assume init: "I i r"
      and step: "\<forall>i r r2. I i r \<longrightarrow> i < length tgl \<longrightarrow>
                   launch_step e hs t tgl B st i r = (None, r2) \<longrightarrow> I (i + B) r2"
    show "\<exists>j r1. I j r1 \<and>
            (if j < length tgl
             then \<exists>err. fst y = Some err \<and> launch_step e hs t tgl B st j r1 = (Some err, snd y)
             else fst y = None \<and> snd y = r1)"
    proof (cases "i < length tgl")
      case False
      with body have "y = (None, r)" by simp
      with False init show ?thesis by (intro exI [of _ i] exI [of _ r]) simp
    next
      case True
      obtain o1 r2 where ls: "launch_step e hs t tgl B st i r = (o1, r2)"
        by (cases "launch_step e hs t tgl B st i r") auto
      show ?thesis
      proof (cases o1)
        case (Some err)
        with True ls body have "y = (Some err, r2)" by simp
        with True ls Some init show ?thesis by (intro exI [of _ i] exI [of _ r]) simp
      next
        case None
        with True ls body have rec: "loop e hs t tgl B st (i + B) r2 = Some y" by simp
        from real True ls None have rec': "launch_loop e hs t tgl B st (i + B) r2 = Some y"
          by (subst (asm) launch_loop.simps) simp
        from step init True ls None have "I (i + B) r2" by blast
        from IH [OF rec rec', THEN spec, of I, THEN mp, OF this, THEN mp, OF step]
        show ?thesis .
      qed
    qed
  qed
qed (rule assms)

lemma launch_loop_inv:
  assumes run: "launch_loop e hs t tgl B st i r = Some (thr, r')"
    and init: "I i r"
    and step: "\<And>i r r2. I i r \<Longrightarrow> i < length tgl \<Longrightarrow>
                 launch_step e hs t tgl B st i r = (None, r2) \<Longrightarrow> I (i + B) r2"
  shows "\<exists>j r1. I j r1 \<and>
           ((j < length tgl
             \<and> (\<exists>err. thr = Some err \<and> launch_step e hs t tgl B st j r1 = (Some err, r')))
            \<or> (\<not> j < length tgl \<and> thr = None \<and> r' = r1))"
proof -
  from step have "\<forall>i r r2. I i r \<longrightarrow> i < length tgl \<longrightarrow>
                    launch_step e hs t tgl B st i r = (None, r2) \<longrightarrow> I (i + B) r2"
    by blast
  from launch_loop_inv_aux [OF run, THEN spec, of I, THEN mp, OF init, THEN mp, OF this]
  obtain j r1 where "I j r1"
    and "if j < length tgl
         then \<exists>err. thr = Some err \<and> launch_step e hs t tgl B st j r1 = (Some err, r')
         else thr = None \<and> r' = r1"
    unfolding fst_conv snd_conv by (elim exE conjE)
  then show ?thesis
    by (cases "j < length tgl") (simp_all; blast)+
qed

lemma launch_loop_total:
  assumes "0 < B"
  shows "\<exists>res. launch_loop e hs t tgl B st i r = Some res"
proof (induction "length tgl - i" arbitrary: i r rule: less_induct)
  case less
  show ?case
  proof (cases "i < length tgl")
    case False
    then show ?thesis by (subst launch_loop.simps) simp
  next
    case True
    obtain o1 r2 where ls: "launch_step e hs t tgl B st i r = (o1, r2)"
      by (cases "launch_step e hs t tgl B st i r") auto
    show ?thesis
    proof (cases o1)
      case (Some err)
      with True ls show ?thesis by (subst launch_loop.simps) simp
    next
      case None
      from True assms have "length tgl - (i + B) < length tgl - i" by arith
      from less [OF this] obtain res where "launch_loop e hs t tgl B st (i + B) r2 = Some res"
        by blast
      with True ls None show ?thesis by (subst launch_loop.simps) simp
    qed
  qed
qed

section \<open>The claims about harvestSMTP\<close>



text \<open>
  C5. With at least one enabled harvester and \<open>retries > 0\<close>, when each of the
  \<open>retries\<close> attempts of a call fails, \<open>harvestSMTP\<close> throws the error naming
  \<open>retries\<close>, having counted \<open>retries\<close> errors. In a run, when the three attempts
  for a batch fail, the loop ends at once with that error and no further event; and
  when the attempts for the first batch fail, the response is the \<open>started\<close> event
  followed by the \<open>error\<close> event, which is also emitted, and \<open>active\<close> is false.
\<close>

theorem C5_exhausted_sources:
  "(filter enabled hs \<noteq> [] \<and> 0 < retries
      \<and> (\<forall>k<retries. harvest_verify e (tick w + k)
             ((rotations (MAGIC_STATS w) + k) mod length (filter enabled hs)) = None)
    \<longrightarrow> fst (harvestSMTP e hs retries w) = Inl (AllHarvestersFailed retries)
        \<and> errors (MAGIC_STATS (fst (snd (harvestSMTP e hs retries w))))
            = errors (MAGIC_STATS w) + retries)
   \<and> (filter enabled hs \<noteq> [] \<and> i < length tgl
        \<and> (\<forall>k<3. harvest_verify e (tick (run_world r) + k)
               ((rotations (MAGIC_STATS (run_world r)) + k) mod length (filter enabled hs)) = None)
      \<longrightarrow> (\<exists>r'. launch_loop e hs t tgl B st i r = Some (Some (AllHarvestersFailed 3), r')
                \<and> written r' = written r \<and> emitted r' = emitted r
                \<and> dispatched r' = dispatched r))
   \<and> (filter enabled hs \<noteq> [] \<and> targets req = Some tgs \<and> template req = Some t
        \<and> targetList_of tgs \<noteq> [] \<and> \<not> falsy (subject t) \<and> \<not> falsy (html t)
        \<and> (\<forall>k<3. harvest_verify e (Suc (tick w) + k)
               ((rotations (MAGIC_STATS w) + k) mod length (filter enabled hs)) = None)
      \<longrightarrow> (\<exists>cid n name w'.
              launch e hs req w
                = Some (EventStream [Started cid n name, Error (AllHarvestersFailed 3) cid],
                        [Error (AllHarvestersFailed 3) cid], [], w')
              \<and> active (MAGIC_STATS w') = False
              \<and> currentCampaign (MAGIC_STATS w') = None
              \<and> errors (MAGIC_STATS w') = errors (MAGIC_STATS w) + 3))"
proof -
  have a: "fst (harvestSMTP e hs retries w) = Inl (AllHarvestersFailed retries)
           \<and> errors (MAGIC_STATS (fst (snd (harvestSMTP e hs retries w))))
               = errors (MAGIC_STATS w) + retries"
    if ne: "filter enabled hs \<noteq> []" and pos: "0 < retries"
      and fail: "\<forall>k<retries. harvest_verify e (tick w + k)
             ((rotations (MAGIC_STATS w) + k) mod length (filter enabled hs)) = None"
  proof -
    from fail have "\<forall>k. 0 \<le> k \<and> k < retries \<longrightarrow>
          harvest_verify e (tick w + (k - 0))
            ((rotations (MAGIC_STATS w) + k) mod length (filter enabled hs)) = None"
      by simp
    from harvestSMTP_loop_all_fail [OF ne pos this, of "[]"] show ?thesis
      by (auto simp: harvestSMTP_def)
  qed
  have b: "\<exists>r'. launch_loop e hs t tgl B st i r = Some (Some (AllHarvestersFailed 3), r')
                \<and> written r' = written r \<and> emitted r' = emitted r
                \<and> dispatched r' = dispatched r"
    if ne: "filter enabled hs \<noteq> []" and i: "i < length tgl"
      and fail: "\<forall>k<3. harvest_verify e (tick (run_world r) + k)
               ((rotations (MAGIC_STATS (run_world r)) + k) mod length (filter enabled hs)) = None"
    for i r tgl t B st
  proof -
    from launch_step_all_fail [OF ne fail, of t tgl B st i] obtain r2 where
      "launch_step e hs t tgl B st i r = (Some (AllHarvestersFailed 3), r2)"
      "written r2 = written r" "emitted r2 = emitted r" "dispatched r2 = dispatched r"
      by blast
    with i show ?thesis
      by (subst launch_loop.simps) simp
  qed
  have c: "\<exists>cid n name w'.
              launch e hs req w
                = Some (EventStream [Started cid n name, Error (AllHarvestersFailed 3) cid],
                        [Error (AllHarvestersFailed 3) cid], [], w')
              \<and> active (MAGIC_STATS w') = False
              \<and> currentCampaign (MAGIC_STATS w') = None
              \<and> errors (MAGIC_STATS w') = errors (MAGIC_STATS w) + 3"
    if ne: "filter enabled hs \<noteq> []" and tg: "targets req = Some tgs" and tm: "template req = Some t"
      and ok: "targetList_of tgs \<noteq> []" "\<not> falsy (subject t)" "\<not> falsy (html t)"
      and fail: "\<forall>k<3. harvest_verify e (Suc (tick w) + k)
               ((rotations (MAGIC_STATS w) + k) mod length (filter enabled hs)) = None"
  proof -
    obtain cid st r0 where s: "launch_start e req (targetList_of tgs) w = (cid, st, r0)"
      by (cases "launch_start e req (targetList_of tgs) w") auto
    note f = launch_start_facts [OF s]
    from f(8) obtain name where wr: "written r0 = [Started cid (length (targetList_of tgs)) name]"
      by blast
    from fail f(3,4) have fail0: "\<forall>k<3. harvest_verify e (tick (run_world r0) + k)
               ((rotations (MAGIC_STATS (run_world r0)) + k) mod length (filter enabled hs)) = None"
      by simp
    from ok(1) have pos: "0 < length (targetList_of tgs)" by simp
    from launch_step_all_fail [OF ne fail0, of t "targetList_of tgs" "batchSize_of req" st 0]
    obtain r2 where r2:
      "launch_step e hs t (targetList_of tgs) (batchSize_of req) st 0 r0
         = (Some (AllHarvestersFailed 3), r2)"
      "written r2 = written r0" "emitted r2 = emitted r0" "dispatched r2 = dispatched r0"
      "errors (MAGIC_STATS (run_world r2)) = errors (MAGIC_STATS (run_world r0)) + 3"
      by blast
    with pos have loop: "launch_loop e hs t (targetList_of tgs) (batchSize_of req) st 0 r0
                     = Some (Some (AllHarvestersFailed 3), r2)"
      by (subst launch_loop.simps) simp
    obtain resp io bs w' where fin:
      "launch_finish e cid st (targetList_of tgs) (Some (AllHarvestersFailed 3), r2) = (resp, io, bs, w')"
      by (cases "launch_finish e cid st (targetList_of tgs) (Some (AllHarvestersFailed 3), r2)") auto
    note g = launch_finish_facts [OF fin]
    from g(4) have resp: "resp = EventStream (written r2 @ [Error (AllHarvestersFailed 3) cid])"
      "io = emitted r2 @ [Error (AllHarvestersFailed 3) cid]"
      by auto
    have "launch e hs req w = Some (resp, io, bs, w')"
      using launch_accepted [OF tg tm ok, of e hs w] s loop fin by simp
    with resp r2 wr f g show ?thesis by simp
  qed
  from a b c show ?thesis by blast
qed

text \<open>
  No source delivers: the call with three attempts throws the error naming 3, and
  a run over two lines ends with the \<open>error\<close> event and \<open>active\<close> false.
\<close>

theorem C5_exhausted_sources_witness:
  "fst (harvestSMTP env_down SMTP_HARVESTERS 3 world0) = Inl (AllHarvestersFailed 3)
   \<and> errors (MAGIC_STATS (fst (snd (harvestSMTP env_down SMTP_HARVESTERS 3 world0)))) = 3
   \<and> map_option fst (launch_loop env_down SMTP_HARVESTERS tmpl0 [js ''a@b.com''] 1 0 0 run0)
       = Some (Some (AllHarvestersFailed 3))
   \<and> map_option fst (launch env_down SMTP_HARVESTERS req0 world0)
       = Some (EventStream [Started (js ''run'') 2 (js ''Campaign-0''),
                            Error (AllHarvestersFailed 3) (js ''run'')])
   \<and> map_option (\<lambda>x. active (MAGIC_STATS (snd (snd (snd x)))))
        (launch env_down SMTP_HARVESTERS req0 world0) = Some False"
proof -
  have ne: "filter enabled SMTP_HARVESTERS \<noteq> []" by (simp add: SMTP_HARVESTERS_def)
  have down: "harvest_verify env_down t i = None" for t i
    by (simp add: env_down_def env_ok_def)
  have z: "errors (MAGIC_STATS world0) = 0"
    by (simp add: world0_def MAGIC_STATS_init_def)
  have rq: "targets req0 = Some (TString (js ''a@b.com\<newline>c@d.com''))" "template req0 = Some tmpl0"
    by (simp_all add: req0_def)
  have tl: "targetList_of (TString (js ''a@b.com\<newline>c@d.com'')) \<noteq> []"
    by (simp add: eval_defs)
  have tm: "\<not> falsy (subject tmpl0)" "\<not> falsy (html tmpl0)"
    by (simp_all add: eval_defs)
  note inst = C5_exhausted_sources
    [where hs = SMTP_HARVESTERS and retries = 3 and e = env_down and w = world0 and i = 0
       and tgl = "[js ''a@b.com'']" and r = run0 and t = tmpl0 and B = 1 and st = 0
       and req = req0 and tgs = "TString (js ''a@b.com\<newline>c@d.com'')"]
  from inst ne down z have
    a: "fst (harvestSMTP env_down SMTP_HARVESTERS 3 world0) = Inl (AllHarvestersFailed 3)
        \<and> errors (MAGIC_STATS (fst (snd (harvestSMTP env_down SMTP_HARVESTERS 3 world0)))) = 3"
    by simp
  from inst ne down have
    b: "map_option fst (launch_loop env_down SMTP_HARVESTERS tmpl0 [js ''a@b.com''] 1 0 0 run0)
          = Some (Some (AllHarvestersFailed 3))"
    by auto
  from inst ne down rq tl tm obtain cid n name w' where
    c: "launch env_down SMTP_HARVESTERS req0 world0
          = Some (EventStream [Started cid n name, Error (AllHarvestersFailed 3) cid],
                  [Error (AllHarvestersFailed 3) cid], [], w')"
       "active (MAGIC_STATS w') = False"
    by auto
  have ev: "map_option fst (launch env_down SMTP_HARVESTERS req0 world0)
       = Some (EventStream [Started (js ''run'') 2 (js ''Campaign-0''),
                            Error (AllHarvestersFailed 3) (js ''run'')])"
    by (simp add: eval_defs req0_def launch_loop.simps harvestSMTP_loop.simps toString.simps)
  from a b c ev show ?thesis by simp
qed

section \<open>Facts about a run\<close>

lemma launch_stream_run:
  assumes "launch e hs req w = Some (EventStream evs, io, bs, w')"
  obtains tgs t cid st r0 thr r' where
    "targets req = Some tgs" and "template req = Some t" and "targetList_of tgs \<noteq> []"
    and "launch_start e req (targetList_of tgs) w = (cid, st, r0)"
    and "launch_loop e hs t (targetList_of tgs) (batchSize_of req) st 0 r0 = Some (thr, r')"
    and "launch_finish e cid st (targetList_of tgs) (thr, r') = (EventStream evs, io, bs, w')"
proof -
  from launch_stream_accepted [OF assms] obtain tgs t where
    acc: "targets req = Some tgs" "template req = Some t" "targetList_of tgs \<noteq> []"
      "\<not> falsy (subject t)" "\<not> falsy (html t)"
    by blast
  obtain cid st r0 where s: "launch_start e req (targetList_of tgs) w = (cid, st, r0)"
    by (cases "launch_start e req (targetList_of tgs) w") auto
  from launch_accepted [OF acc, of e hs w] s assms have
    "map_option (launch_finish e cid st (targetList_of tgs))
       (launch_loop e hs t (targetList_of tgs) (batchSize_of req) st 0 r0)
     = Some (EventStream evs, io, bs, w')"
    by simp
  then obtain y where
    l: "launch_loop e hs t (targetList_of tgs) (batchSize_of req) st 0 r0 = Some y" and
    f: "launch_finish e cid st (targetList_of tgs) y = (EventStream evs, io, bs, w')"
    unfolding map_option_eq_Some by blast
  obtain thr r' where y: "y = (thr, r')" by (cases y)
  from acc s l f y that show ?thesis by blast
qed

lemma launch_not_None:
  assumes "batchSize req \<noteq> Some 0"
  shows "launch e hs req w \<noteq> None"
proof (cases "\<exists>tgs t. targets req = Some tgs \<and> template req = Some t \<and> targetList_of tgs \<noteq> []
                \<and> \<not> falsy (subject t) \<and> \<not> falsy (html t)")
  case True
  then obtain tgs t where
    acc: "targets req = Some tgs" "template req = Some t" "targetList_of tgs \<noteq> []"
      "\<not> falsy (subject t)" "\<not> falsy (html t)"
    by blast
  from assms have pos: "0 < batchSize_of req"
    by (cases "batchSize req") (simp_all add: batchSize_of_def)
  from launch_loop_total [OF pos] obtain res where
    "launch_loop e hs t (targetList_of tgs) (batchSize_of req)
       (fst (snd (launch_start e req (targetList_of tgs) w))) 0
       (snd (snd (launch_start e req (targetList_of tgs) w))) = Some res"
    by blast
  with launch_accepted [OF acc, of e hs w] show ?thesis by simp
next
  case False
  then have "(case targets req of None \<Rightarrow> True | Some tgs \<Rightarrow> targetList_of tgs = [])
           \<or> (case template req of None \<Rightarrow> True
               | Some t \<Rightarrow> falsy (subject t) \<or> falsy (html t))"
    by (cases "targets req"; cases "template req") auto
  from launch_rejected [OF this, of e hs w] show ?thesis by auto
qed

lemma launch_finish_progress:
  assumes "launch_finish e cid st tgl (thr, r) = (EventStream evs, io, bs, w')"
  shows "Progress u \<in> set evs \<longleftrightarrow> Progress u \<in> set (written r)"
    and "Progress u \<in> set io \<longleftrightarrow> Progress u \<in> set (emitted r)"
  using assms
  by (auto simp: launch_finish_def Let_def split: option.splits)

lemma launch_progress_sent:
  assumes "launch e hs req w = Some (EventStream evs, io, bs, w')"
    and "Progress u \<in> set evs \<or> Progress u \<in> set io"
  shows "upd_sent u = sent (MAGIC_STATS w) + totalSent u"
proof -
  from assms(1) obtain tgs t cid st r0 thr r' where
    s: "launch_start e req (targetList_of tgs) w = (cid, st, r0)" and
    l: "launch_loop e hs t (targetList_of tgs) (batchSize_of req) st 0 r0 = Some (thr, r')" and
    f: "launch_finish e cid st (targetList_of tgs) (thr, r') = (EventStream evs, io, bs, w')"
    by (rule launch_stream_run)
  let ?s0 = "sent (MAGIC_STATS w)"
  let ?P = "\<lambda>r x. Progress x \<in> set (written r) \<or> Progress x \<in> set (emitted r)"
  define I where "I = (\<lambda>(i::nat) (r::run). sent (MAGIC_STATS (run_world r)) = ?s0 + run_totalSent r
             \<and> (\<forall>x. ?P r x \<longrightarrow> upd_sent x = ?s0 + totalSent x))"
  note g = launch_start_facts [OF s]
  have init: "I 0 r0"
    unfolding I_def using g by auto
  have step: "I (i + batchSize_of req) r2"
    if inv: "I i r" and "i < length (targetList_of tgs)"
      and ls: "launch_step e hs t (targetList_of tgs) (batchSize_of req) st i r = (None, r2)"
    for i r r2
  proof -
    from launch_step_None [OF ls] obtain smtp w1 sel results w2 upd where
      h: "harvestSMTP e hs 3 (run_world r) = (Inr (Some smtp), w1, sel)" and
      sb: "sendBatch e smtp (slice (targetList_of tgs) i
             (min (i + batchSize_of req) (length (targetList_of tgs)))) t w1 = (results, w2)" and
      rw: "run_world r2 = advance w2" and
      ts: "run_totalSent r2
             = run_totalSent r + length (filter (\<lambda>x. status x = Success) results)" and
      wr: "written r2 = written r @ [Progress upd]" and
      em: "emitted r2 = emitted r @ [Progress upd]" and
      us: "upd_sent upd = sent (MAGIC_STATS w2)" and
      ut: "totalSent upd = run_totalSent r2"
      by blast
    have "sent (MAGIC_STATS w2) = ?s0 + run_totalSent r2"
      using harvestSMTP_sent [OF h] sendBatch_sent [OF sb] inv ts by (simp add: I_def)
    with rw wr em us ut inv show ?thesis
      by (auto simp: advance_def I_def)
  qed
  from l init have "\<exists>j r1. I j r1 \<and>
           ((j < length (targetList_of tgs)
             \<and> (\<exists>err. thr = Some err
                   \<and> launch_step e hs t (targetList_of tgs) (batchSize_of req) st j r1
                       = (Some err, r')))
            \<or> (\<not> j < length (targetList_of tgs) \<and> thr = None \<and> r' = r1))"
  proof (rule launch_loop_inv [where I = I])
    fix i r r2
    assume "I i r" and "i < length (targetList_of tgs)"
      and "launch_step e hs t (targetList_of tgs) (batchSize_of req) st i r = (None, r2)"
    then show "I (i + batchSize_of req) r2" by (rule step)
  qed
  then obtain j r1 where
    inv: "I j r1" and
    fin: "(j < length (targetList_of tgs)
           \<and> (\<exists>err. thr = Some err
                 \<and> launch_step e hs t (targetList_of tgs) (batchSize_of req) st j r1 = (Some err, r')))
          \<or> (\<not> j < length (targetList_of tgs) \<and> thr = None \<and> r' = r1)"
    by blast
  have same: "written r' = written r1 \<and> emitted r' = emitted r1"
    using fin launch_step_Some by blast
  from assms(2) launch_finish_progress [OF f] have "?P r' u" by blast
  with same inv show ?thesis by (auto simp: I_def)
qed

lemma progress_of_set: "u \<in> set (progress_of evs) \<longleftrightarrow> Progress u \<in> set evs"
  by (induction evs rule: progress_of.induct) auto

section \<open>Facts about the partition into batches\<close>

lemma floor_rat_numeral: "\<lfloor>numeral a / numeral b :: rat\<rfloor> = numeral a div numeral b"
  by (metis floor_divide_of_int_eq of_int_numeral)

lemma ceiling_rat_numeral: "\<lceil>numeral a / numeral b :: rat\<rceil> = - (- numeral a div numeral b)"
  by (metis ceiling_divide_eq_div of_int_numeral)








section \<open>The claims about the launch endpoint\<close>

text \<open>
  C3, as amended. When the request has no targets, or the target list that the
  endpoint computes is empty (an array as given; a string split into lines, trimmed
  and filtered), or there is no template, or its subject or body is absent or empty,
  the answer is a JSON error with status 400: nothing is emitted, no batch is
  dispatched, and the world, with the statistics, the flag and the tick of the
  outside calls, is as before.
\<close>

theorem C3_validation_fails_fast:
  assumes "(case targets req of None \<Rightarrow> True | Some tgs \<Rightarrow> targetList_of tgs = [])
           \<or> (case template req of None \<Rightarrow> True
               | Some t \<Rightarrow> falsy (subject t) \<or> falsy (html t))"
  shows "\<exists>msg. launch e hs req w = Some (Json 400 msg, [], [], w)"
  using assms by (rule launch_rejected)

text \<open>Two lines without a valid address: status 400, and the world is unchanged.\<close>

theorem C3_validation_fails_fast_witness:
  "launch env_ok SMTP_HARVESTERS
     \<lparr>targets = Some (TString (js ''bad\<newline>x@y'')), template = Some tmpl0, batchSize = None,
      campaignName = None\<rparr> world0
   = Some (Json 400 (js ''No valid email targets provided''), [], [], world0)"
proof -
  let ?req = "\<lparr>targets = Some (TString (js ''bad\<newline>x@y'')), template = Some tmpl0,
               batchSize = None, campaignName = None\<rparr>"
  have "(case targets ?req of None \<Rightarrow> True | Some tgs \<Rightarrow> targetList_of tgs = [])
        \<or> (case template ?req of None \<Rightarrow> True
            | Some t \<Rightarrow> falsy (subject t) \<or> falsy (html t))"
    by (simp add: eval_defs)
  from C3_validation_fails_fast [OF this, of env_ok SMTP_HARVESTERS world0] obtain msg where
    m: "launch env_ok SMTP_HARVESTERS ?req world0 = Some (Json 400 msg, [], [], world0)"
    by blast
  have "map_option fst (launch env_ok SMTP_HARVESTERS ?req world0)
          = Some (Json 400 (js ''No valid email targets provided''))"
    by (simp add: eval_defs)
  with m show ?thesis by simp
qed

text \<open>
  C3 as stated fails for an array: the array with the one entry \<open>bad\<close> is empty
  once invalid formats are filtered out, yet the run starts, a credential is
  acquired (the rotation counter becomes 1) and the batch is dispatched.
\<close>

theorem C3_counterexample:
  "filter (\<lambda>x. \<not> invalid_email (trim x)) [js ''bad''] = []
   \<and> map_option (\<lambda>x. fst (snd (snd x)))
        (launch env_ok SMTP_HARVESTERS
           \<lparr>targets = Some (TArray [js ''bad'']), template = Some tmpl0, batchSize = None,
            campaignName = None\<rparr> world0) = Some [[js ''bad'']]
   \<and> map_option (\<lambda>x. rotations (MAGIC_STATS (snd (snd (snd x)))))
        (launch env_ok SMTP_HARVESTERS
           \<lparr>targets = Some (TArray [js ''bad'']), template = Some tmpl0, batchSize = None,
            campaignName = None\<rparr> world0) = Some 1"
  by (simp add: eval_defs launch_loop.simps harvestSMTP_loop.simps toString.simps)



text \<open>
  C10. In every progress event of a launch, written or emitted, \<open>sent\<close> is the value of
  \<open>MAGIC_STATS.sent\<close> when the launch began plus the event's \<open>totalSent\<close>: the two
  fields are equal exactly when nothing had been sent before the launch. (One launch
  at a time: no other run changes the counter meanwhile.)
\<close>

theorem C10_progress_sent_is_cumulative:
  "(launch e hs req w = Some (EventStream evs, io, bs, w') \<and>
      (Progress u \<in> set evs \<or> Progress u \<in> set io) \<longrightarrow>
        upd_sent u = sent (MAGIC_STATS w) + totalSent u
        \<and> (upd_sent u = totalSent u \<longleftrightarrow> sent (MAGIC_STATS w) = 0))
   \<and> (batchSize req \<noteq> Some 0 \<longrightarrow> launch e hs req w \<noteq> None)"
proof -
  have "upd_sent u = sent (MAGIC_STATS w) + totalSent u
        \<and> (upd_sent u = totalSent u \<longleftrightarrow> sent (MAGIC_STATS w) = 0)"
    if "launch e hs req w = Some (EventStream evs, io, bs, w')"
      and "Progress u \<in> set evs \<or> Progress u \<in> set io"
    using launch_progress_sent [OF that] by simp
  moreover have "batchSize req \<noteq> Some 0 \<longrightarrow> launch e hs req w \<noteq> None"
    using launch_not_None by blast
  ultimately show ?thesis by blast
qed

text \<open>
  One target, 5 messages sent before the launch: the progress event reports
  \<open>sent = 6\<close> and \<open>totalSent = 1\<close>.
\<close>

theorem C10_progress_sent_is_cumulative_witness:
  "map_option (\<lambda>x. map (\<lambda>u. (upd_sent u, totalSent u)) (progress_of (events_of (fst x))))
     (launch env_ok SMTP_HARVESTERS req1 world5) = Some [(6, 1)]
   \<and> sent (MAGIC_STATS world5) = 5"
proof -
  have ev: "map_option (\<lambda>x. map (\<lambda>u. (upd_sent u, totalSent u)) (progress_of (events_of (fst x))))
     (launch env_ok SMTP_HARVESTERS req1 world5) = Some [(6, 1)]"
    by (simp add: eval_defs launch_loop.simps harvestSMTP_loop.simps toString.simps)
  then obtain resp io bs w' where
    l: "launch env_ok SMTP_HARVESTERS req1 world5 = Some (resp, io, bs, w')" and
    p: "map (\<lambda>u. (upd_sent u, totalSent u)) (progress_of (events_of resp)) = [(6, 1)]"
    by (cases "launch env_ok SMTP_HARVESTERS req1 world5") auto
  from p obtain u where u: "u \<in> set (progress_of (events_of resp))"
    "upd_sent u = 6" "totalSent u = 1"
    by (cases "progress_of (events_of resp)") auto
  from u(1) obtain evs where r: "resp = EventStream evs" by (cases resp) auto
  with u(1) have "Progress u \<in> set evs" by (simp add: progress_of_set)
  with C10_progress_sent_is_cumulative [of env_ok SMTP_HARVESTERS req1 world5 evs io bs w' u] l r
  have "upd_sent u = sent (MAGIC_STATS world5) + totalSent u" by simp
  with u ev show ?thesis by simp
qed



end
